theory Spec2Isabelle
  imports Main "HOL-Library.Sublist" "HOL-Library.AList"
begin

section \<open>Values and errors\<close>

text \<open>
  The server reads and writes JSON files. A parsed JSON document is a value of \<open>json\<close>;
  Python's \<open>None\<close> is \<open>JNull\<close> and a \<open>dict\<close> is an association list in insertion order
  (\<open>map_of\<close> reads a key, \<open>AList.update\<close> assigns one). Numbers are integers.
\<close>

datatype json =
    JNull
  | JBool bool
  | JNum int
  | JStr string
  | JArr "json list"
  | JObj "(string \<times> json) list"

text \<open>
  Every way a request can end other than by returning: the \<open>HTTPException\<close> the code
  raises itself (with its status code), and the exceptions that Python and pydantic raise
  under it, which the framework turns into an internal error.
\<close>

datatype error =
    HTTPException nat
  | KeyError
  | TypeError
  | AttributeError
  | ValidationError
  | RuntimeError
  | ValueError
  | OSError

text \<open>Sequencing: the first error ends the request.\<close>

definition and_then :: "error + 'a \<Rightarrow> ('a \<Rightarrow> error + 'b) \<Rightarrow> error + 'b" where
  "and_then res f = (case res of Inl e \<Rightarrow> Inl e | Inr x \<Rightarrow> f x)"

section \<open>Paths\<close>

text \<open>
  A \<open>PurePosixPath\<close>: whether it has the root \<open>/\<close>, and its components.
\<close>

datatype Path = PosixPath (anchored: bool) (parts: "string list")

text \<open>\<open>a / b\<close>: an absolute right operand replaces the left one.\<close>

definition joinpath :: "Path \<Rightarrow> Path \<Rightarrow> Path" where
  "joinpath a b = (if anchored b then b else PosixPath (anchored a) (parts a @ parts b))"

text \<open>\<open>s.split(sep)\<close> for a one-character separator.\<close>

fun split_on :: "char \<Rightarrow> string \<Rightarrow> string list" where
  "split_on sep [] = [[]]"
| "split_on sep (c # cs) =
     (if c = sep then [] # split_on sep cs
      else (case split_on sep cs of w # ws \<Rightarrow> (c # w) # ws | [] \<Rightarrow> [[c]]))"

text \<open>
  \<open>Path(s)\<close>: the text is cut at the slashes; empty components and \<open>.\<close> are dropped,
  \<open>..\<close> is kept. A leading slash is the root (\<open>//\<close> is read as \<open>/\<close>).
\<close>

definition name_ok :: "string \<Rightarrow> bool" where
  "name_ok c = (c \<noteq> [] \<and> c \<noteq> ''.'')"

definition Path_of :: "string \<Rightarrow> Path" where
  "Path_of s = PosixPath (take 1 s = ''/'') (filter name_ok (split_on CHR ''/'' s))"

text \<open>\<open>str(p)\<close>.\<close>

fun join_parts :: "string list \<Rightarrow> string" where
  "join_parts [] = []"
| "join_parts [c] = c"
| "join_parts (c # cs) = c @ ''/'' @ join_parts cs"

definition path_str :: "Path \<Rightarrow> string" where
  "path_str p =
     (if anchored p then ''/'' @ join_parts (parts p)
      else if parts p = [] then ''.'' else join_parts (parts p))"

text \<open>
  \<open>p.is_relative_to(other)\<close> and \<open>p.relative_to(other)\<close> compare components; the
  latter raises \<open>ValueError\<close> (here \<open>None\<close>) when \<open>p\<close> is not below \<open>other\<close>.
\<close>

definition is_relative_to :: "Path \<Rightarrow> Path \<Rightarrow> bool" where
  "is_relative_to p other = (anchored p = anchored other \<and> prefix (parts other) (parts p))"

definition relative_to :: "Path \<Rightarrow> Path \<Rightarrow> Path option" where
  "relative_to p other =
     (if is_relative_to p other
      then Some (PosixPath False (drop (length (parts other)) (parts p)))
      else None)"

text \<open>
  What the module reads from its surroundings:
  \<^item> the module constants \<open>ROOT\<close> and \<open>DATA_DIR\<close>;
  \<^item> \<open>home\<close>, the user database behind \<open>os.path.expanduser\<close>: the home directory that a
    first component \<open>~\<close> or \<open>~user\<close> names, or \<open>None\<close> when it cannot be determined;
  \<^item> \<open>realpath\<close>, the operating system's answer to \<open>Path.resolve()\<close>: the absolute path
    with symbolic links followed and \<open>..\<close> removed, or the exception raised (\<open>ValueError\<close>
    on an embedded NUL, \<open>RuntimeError\<close> on a loop of symbolic links);
  \<^item> the two halves of the datetime codec, \<open>datetime.isoformat\<close> (used by \<open>_json_dump\<close>)
    and pydantic's validation of a \<open>datetime\<close> field (used by
    \<open>RunSummary.model_validate\<close>). \<open>'d\<close> is the type of datetimes.
\<close>

record 'd env =
  ROOT :: Path
  DATA_DIR :: Path
  home :: "string \<Rightarrow> Path option"
  realpath :: "Path \<Rightarrow> error + Path"
  isoformat :: "'d \<Rightarrow> string"
  validate_datetime :: "json \<Rightarrow> 'd option"

text \<open>
  \<open>p.expanduser()\<close>: a relative path whose first component starts with \<open>~\<close> has that
  component replaced by the home directory it names; when that directory cannot be
  determined, \<open>RuntimeError\<close> is raised.
\<close>

definition expanduser :: "'d env \<Rightarrow> Path \<Rightarrow> error + Path" where
  "expanduser E p =
     (case parts p of
        [] \<Rightarrow> Inr p
      | c # cs \<Rightarrow>
          if \<not> anchored p \<and> take 1 c = ''~''
          then (case home E c of
                  None \<Rightarrow> Inl RuntimeError
                | Some h \<Rightarrow> Inr (PosixPath (anchored h) (parts h @ cs)))
          else Inr p)"

text \<open>\<open>p.resolve()\<close>.\<close>

definition resolve :: "'d env \<Rightarrow> Path \<Rightarrow> error + Path" where
  "resolve E p = realpath E p"

text \<open>\<open>_safe\<close>; only the 403 is raised by the code itself.\<close>

definition safe :: "'d env \<Rightarrow> string \<Rightarrow> error + Path" where
  "safe E path =
     and_then (expanduser E (Path_of path)) (\<lambda>q.
     and_then (resolve E (joinpath (ROOT E) q)) (\<lambda>p.
       if \<not> is_relative_to p (ROOT E) then Inl (HTTPException 403) else Inr p))"

section \<open>Python's operations on parsed JSON\<close>

text \<open>\<open>for x in v\<close>: a list yields its items, a dict its keys, a string its characters.\<close>

fun py_iter :: "json \<Rightarrow> error + json list" where
  "py_iter (JArr xs) = Inr xs"
| "py_iter (JObj kvs) = Inr (map JStr (map fst kvs))"
| "py_iter (JStr s) = Inr (map (\<lambda>c. JStr [c]) s)"
| "py_iter _ = Inl TypeError"

text \<open>\<open>d.get(k, default)\<close>; only a dict has the method.\<close>

fun py_get :: "json \<Rightarrow> string \<Rightarrow> json \<Rightarrow> error + json" where
  "py_get (JObj kvs) k dflt = Inr (case map_of kvs k of Some v \<Rightarrow> v | None \<Rightarrow> dflt)"
| "py_get _ k dflt = Inl AttributeError"

text \<open>\<open>d[k]\<close> with a string key.\<close>

fun py_index :: "json \<Rightarrow> string \<Rightarrow> error + json" where
  "py_index (JObj kvs) k = (case map_of kvs k of Some v \<Rightarrow> Inr v | None \<Rightarrow> Inl KeyError)"
| "py_index _ k = Inl TypeError"

text \<open>\<open>d[k] = v\<close> on a dict: an existing key keeps its place, a new one goes last.\<close>

fun py_setitem :: "json \<Rightarrow> string \<Rightarrow> json \<Rightarrow> error + json" where
  "py_setitem (JObj kvs) k v = Inr (JObj (AList.update k v kvs))"
| "py_setitem _ k v = Inl TypeError"

text \<open>Truthiness, as \<open>if v:\<close> and \<open>not v\<close> read it.\<close>

fun truthy :: "json \<Rightarrow> bool" where
  "truthy JNull = False"
| "truthy (JBool b) = b"
| "truthy (JNum n) = (n \<noteq> 0)"
| "truthy (JStr s) = (s \<noteq> [])"
| "truthy (JArr xs) = (xs \<noteq> [])"
| "truthy (JObj kvs) = (kvs \<noteq> [])"

text \<open>
  \<open>s in v\<close> for a string \<open>s\<close>: a substring of a string, an item of a list, a key of a
  dict; other values do not support the test.
\<close>

fun py_in :: "string \<Rightarrow> json \<Rightarrow> error + bool" where
  "py_in s (JStr t) = Inr (sublist s t)"
| "py_in s (JArr xs) = Inr (JStr s \<in> set xs)"
| "py_in s (JObj kvs) = Inr (s \<in> set (map fst kvs))"
| "py_in s _ = Inl TypeError"

text \<open>
  Lists and dicts cannot be members of a set. The members of a set are told apart by
  \<open>==\<close>, under which \<open>True\<close> is 1 and \<open>False\<close> is 0: a set is modelled by the set of
  the keys of its members, where the key of a boolean is its number and every other
  value is its own key.
\<close>

fun hashable :: "json \<Rightarrow> bool" where
  "hashable (JArr xs) = False"
| "hashable (JObj kvs) = False"
| "hashable _ = True"

fun pykey :: "json \<Rightarrow> json" where
  "pykey (JBool b) = JNum (if b then 1 else 0)"
| "pykey v = v"

text \<open>Running a fallible function over a list stops at the first error.\<close>

fun traverse :: "('a \<Rightarrow> error + 'b) \<Rightarrow> 'a list \<Rightarrow> error + 'b list" where
  "traverse f [] = Inr []"
| "traverse f (x # xs) =
     (case f x of
        Inl e \<Rightarrow> Inl e
      | Inr y \<Rightarrow> (case traverse f xs of Inl e \<Rightarrow> Inl e | Inr ys \<Rightarrow> Inr (y # ys)))"

text \<open>A list comprehension \<open>[x for x in v if p(x)]\<close> over a JSON value.\<close>

fun filterM :: "('a \<Rightarrow> error + bool) \<Rightarrow> 'a list \<Rightarrow> error + 'a list" where
  "filterM p [] = Inr []"
| "filterM p (x # xs) =
     (case p x of
        Inl e \<Rightarrow> Inl e
      | Inr b \<Rightarrow> (case filterM p xs of
                    Inl e \<Rightarrow> Inl e
                  | Inr ys \<Rightarrow> Inr (if b then x # ys else ys)))"

definition comprehension :: "(json \<Rightarrow> error + bool) \<Rightarrow> json \<Rightarrow> error + json" where
  "comprehension p v =
     and_then (py_iter v) (\<lambda>xs. and_then (filterM p xs) (\<lambda>ys. Inr (JArr ys)))"

section \<open>Run registry\<close>

datatype RunType = scan | inventory

datatype Status = Pending | Done | Error

record 'd RunSummary =
  run_id :: string
  rtype :: RunType
  created :: 'd
  status :: Status
  path :: string

definition RunType_value :: "RunType \<Rightarrow> string" where
  "RunType_value t = (case t of scan \<Rightarrow> ''scan'' | inventory \<Rightarrow> ''inventory'')"

definition Status_value :: "Status \<Rightarrow> string" where
  "Status_value s = (case s of Pending \<Rightarrow> ''pending'' | Done \<Rightarrow> ''done'' | Error \<Rightarrow> ''error'')"

text \<open>
  \<open>r.model_dump()\<close> as \<open>json.dumps\<close> renders it: the fields in declaration order, the
  enum member by its value, the datetime through the \<open>default\<close> hook's \<open>isoformat\<close>.
\<close>

definition model_dump :: "'d env \<Rightarrow> 'd RunSummary \<Rightarrow> json" where
  "model_dump E r = JObj
     [(''run_id'', JStr (run_id r)),
      (''type'', JStr (RunType_value (rtype r))),
      (''created'', JStr (isoformat E (created r))),
      (''status'', JStr (Status_value (status r))),
      (''path'', JStr (path r))]"

fun validate_str :: "json option \<Rightarrow> string option" where
  "validate_str (Some (JStr s)) = Some s"
| "validate_str _ = None"

definition validate_RunType :: "json option \<Rightarrow> RunType option" where
  "validate_RunType v =
     (case validate_str v of
        None \<Rightarrow> None
      | Some s \<Rightarrow> if s = ''scan'' then Some scan
                  else if s = ''inventory'' then Some inventory else None)"

definition validate_Status :: "json option \<Rightarrow> Status option" where
  "validate_Status v =
     (case validate_str v of
        None \<Rightarrow> None
      | Some s \<Rightarrow> if s = ''pending'' then Some Pending
                  else if s = ''done'' then Some Done
                  else if s = ''error'' then Some Error else None)"

text \<open>
  \<open>RunSummary.model_validate(r)\<close> on a parsed JSON value: a dict with the five fields,
  each of its declared type; anything else is a validation error. Further keys are
  ignored.
\<close>

fun model_validate :: "'d env \<Rightarrow> json \<Rightarrow> error + 'd RunSummary" where
  "model_validate E (JObj kvs) =
     (case (validate_str (map_of kvs ''run_id''),
            validate_RunType (map_of kvs ''type''),
            Option.bind (map_of kvs ''created'') (validate_datetime E),
            validate_Status (map_of kvs ''status''),
            validate_str (map_of kvs ''path'')) of
        (Some i, Some t, Some c, Some s, Some p) \<Rightarrow>
          Inr \<lparr>run_id = i, rtype = t, created = c, status = s, path = p\<rparr>
      | _ \<Rightarrow> Inl ValidationError)"
| "model_validate E _ = Inl ValidationError"

text \<open>
  The files below \<open>DATA_DIR\<close>, each holding a JSON document; they come last in every
  operation on them. \<open>_json_load\<close> and \<open>_json_dump\<close>:
\<close>

type_synonym files = "Path \<rightharpoonup> json"

definition RUNS_FILE :: "'d env \<Rightarrow> Path" where
  "RUNS_FILE E = joinpath (DATA_DIR E) (Path_of ''runs.json'')"

definition json_load :: "Path \<Rightarrow> json \<Rightarrow> files \<Rightarrow> json" where
  "json_load p dflt fs = (case fs p of Some j \<Rightarrow> j | None \<Rightarrow> dflt)"

definition json_dump :: "Path \<Rightarrow> json \<Rightarrow> files \<Rightarrow> files" where
  "json_dump p obj fs = fs(p \<mapsto> obj)"

text \<open>\<open>_runs\<close>: the registry as the file holds it.\<close>

definition runs :: "'d env \<Rightarrow> files \<Rightarrow> error + 'd RunSummary list" where
  "runs E fs =
     and_then (py_iter (json_load (RUNS_FILE E) (JArr []) fs)) (traverse (model_validate E))"

text \<open>\<open>_save_runs\<close>, on a list of \<open>RunSummary\<close> objects.\<close>

definition save_runs :: "'d env \<Rightarrow> 'd RunSummary list \<Rightarrow> files \<Rightarrow> files" where
  "save_runs E lst fs = json_dump (RUNS_FILE E) (JArr (map (model_dump E) lst)) fs"

text \<open>\<open>_add_run\<close>: load, append, save.\<close>

definition add_run :: "'d env \<Rightarrow> 'd RunSummary \<Rightarrow> files \<Rightarrow> error + files" where
  "add_run E r fs = and_then (runs E fs) (\<lambda>lst. Inr (save_runs E (lst @ [r]) fs))"

text \<open>
  The loop of \<open>_set_status\<close>: the first record with the id gets the status, and the
  \<open>break\<close> leaves the rest alone.
\<close>

fun set_first :: "string \<Rightarrow> Status \<Rightarrow> 'd RunSummary list \<Rightarrow> 'd RunSummary list" where
  "set_first rid st [] = []"
| "set_first rid st (r # rs) =
     (if run_id r = rid then r\<lparr>status := st\<rparr> # rs else r # set_first rid st rs)"

definition set_status :: "'d env \<Rightarrow> string \<Rightarrow> Status \<Rightarrow> files \<Rightarrow> error + files" where
  "set_status E rid st fs =
     and_then (runs E fs) (\<lambda>lst. Inr (save_runs E (set_first rid st lst) fs))"

text \<open>\<open>next((r for r in _runs() if r.run_id == rid), None)\<close>.\<close>

definition lookup_run :: "string \<Rightarrow> 'd RunSummary list \<Rightarrow> 'd RunSummary option" where
  "lookup_run rid lst = find (\<lambda>r. run_id r = rid) lst"

text \<open>\<open>lookup(id)\<close> as a client sees it: the status of the run with the id, if any.\<close>

definition status_of :: "'d env \<Rightarrow> string \<Rightarrow> files \<Rightarrow> error + Status option" where
  "status_of E rid fs =
     and_then (runs E fs) (\<lambda>lst. Inr (map_option status (lookup_run rid lst)))"

definition terminal :: "Status \<Rightarrow> bool" where
  "terminal st = (st = Done \<or> st = Error)"

text \<open>
  A codec is sound when validating what \<open>isoformat\<close> printed gives the datetime back,
  as pydantic does on ISO 8601 text.
\<close>

definition codec_ok :: "'d env \<Rightarrow> bool" where
  "codec_ok E = (\<forall>d. validate_datetime E (JStr (isoformat E d)) = Some d)"

section \<open>Result store\<close>

text \<open>
  \<open>_report_path\<close>: one subdirectory per run id, one file name per run type.
  Directories are not modelled, so the \<open>mkdir\<close> leaves no trace.
\<close>

definition report_path :: "'d env \<Rightarrow> string \<Rightarrow> RunType \<Rightarrow> Path" where
  "report_path E rid kind =
     (let subdir = joinpath (DATA_DIR E) (Path_of rid)
      in if kind = scan then joinpath subdir (Path_of ''scan_report.json'')
         else joinpath subdir (Path_of ''inventory.json''))"

text \<open>
  The body of the loop over the findings of \<open>results\<close>. \<open>f.get\<close> needs a dict. A falsy
  location is skipped; \<open>Path(loc)\<close> raises on anything but a string, \<open>resolve\<close> raises
  on a string it cannot resolve and \<open>relative_to\<close> raises outside \<open>base\<close>, and the
  \<open>except\<close> clause leaves the finding as it is.
\<close>

fun relocate :: "'d env \<Rightarrow> Path \<Rightarrow> json \<Rightarrow> error + json" where
  "relocate E base (JObj kvs) =
     (case map_of kvs ''location'' of
        None \<Rightarrow> Inr (JObj kvs)
      | Some loc \<Rightarrow>
          if \<not> truthy loc then Inr (JObj kvs)
          else (case loc of
                  JStr s \<Rightarrow>
                    (case resolve E (Path_of s) of
                       Inl e \<Rightarrow> Inr (JObj kvs)
                     | Inr p \<Rightarrow>
                         (case relative_to p base of
                            Some rel \<Rightarrow>
                              Inr (JObj (AList.update ''location'' (JStr (path_str rel)) kvs))
                          | None \<Rightarrow> Inr (JObj kvs)))
                | _ \<Rightarrow> Inr (JObj kvs)))"
| "relocate E base _ = Inl AttributeError"

text \<open>
  \<open>results\<close>. The findings are changed in place, so the data returned holds the
  rewritten list when \<open>findings\<close> is a list; the items of any other iterable are not
  dicts.
\<close>

definition results :: "'d env \<Rightarrow> string \<Rightarrow> files \<Rightarrow> error + json" where
  "results E rid fs =
     and_then (runs E fs) (\<lambda>lst.
       case lookup_run rid lst of
         None \<Rightarrow> Inl (HTTPException 404)
       | Some run \<Rightarrow>
           (case fs (report_path E rid (rtype run)) of
              None \<Rightarrow> Inr (JObj [(''status'', JStr ''pending'')])
            | Some data \<Rightarrow>
                if rtype run = scan then
                  and_then (py_get data ''findings'' JNull) (\<lambda>findings.
                    if findings = JNull then Inl (HTTPException 500)
                    else
                      and_then (resolve E (joinpath (DATA_DIR E) (Path_of rid))) (\<lambda>base.
                      and_then (py_iter findings) (\<lambda>fl.
                      and_then (traverse (relocate E base) fl) (\<lambda>fl'.
                        case findings of
                          JArr _ \<Rightarrow> py_setitem data ''findings'' (JArr fl')
                        | _ \<Rightarrow> Inr data))))
                else Inr data))"

section \<open>Findings filter\<close>

text \<open>The three tests of \<open>filter_scan\<close> on one finding.\<close>

definition has_severity :: "string \<Rightarrow> json \<Rightarrow> error + bool" where
  "has_severity severity f =
     and_then (py_get f ''severity'' JNull) (\<lambda>v. Inr (v = JStr severity))"

definition has_owasp_id :: "string \<Rightarrow> json \<Rightarrow> error + bool" where
  "has_owasp_id owasp_id f = and_then (py_get f ''owasp_id'' (JStr [])) (py_in owasp_id)"

definition has_component :: "string \<Rightarrow> json \<Rightarrow> error + bool" where
  "has_component component f = and_then (py_get f ''location'' (JStr [])) (py_in component)"

text \<open>
  \<open>if c: findings = [f for f in findings if test(c, f)]\<close> for an optional string
  \<open>c\<close>: \<open>None\<close> and the empty string are both falsy.
\<close>

definition narrow ::
  "string option \<Rightarrow> (string \<Rightarrow> json \<Rightarrow> error + bool) \<Rightarrow> json \<Rightarrow> error + json" where
  "narrow c test findings =
     (case c of
        None \<Rightarrow> Inr findings
      | Some s \<Rightarrow> if s = [] then Inr findings else comprehension (test s) findings)"

text \<open>\<open>filter_scan\<close>.\<close>

definition filter_scan ::
  "'d env \<Rightarrow> string \<Rightarrow> string option \<Rightarrow> string option \<Rightarrow> string option \<Rightarrow> files
     \<Rightarrow> error + json" where
  "filter_scan E rid severity owasp_id component fs =
     and_then (results E rid fs) (\<lambda>data.
     and_then (py_get data ''status'' JNull) (\<lambda>st.
       if st = JStr ''pending'' then Inr data
       else
         and_then (py_index data ''type'') (\<lambda>t.
           if t \<noteq> JStr ''scan'' then Inl (HTTPException 400)
           else
             and_then (py_get data ''findings'' (JArr [])) (\<lambda>f0.
             and_then (narrow severity has_severity f0) (\<lambda>f1.
             and_then (narrow owasp_id has_owasp_id f1) (\<lambda>f2.
             and_then (narrow component has_component f2) (\<lambda>f3.
               py_setitem data ''findings'' f3)))))))"

section \<open>Graph neighbourhood\<close>

text \<open>
  What one edge contributes to a hop: \<open>e["source"]\<close> and \<open>e["target"]\<close> are both read
  and both tested for membership in the frontier, the source first. \<open>member_key\<close> reads
  a field for such a test or for adding it to a set: it gives the value's key.
\<close>

definition member_key :: "json \<Rightarrow> string \<Rightarrow> error + json" where
  "member_key e k =
     and_then (py_index e k) (\<lambda>v. if hashable v then Inr (pykey v) else Inl TypeError)"

definition endpoints :: "json \<Rightarrow> error + json \<times> json" where
  "endpoints e =
     and_then (member_key e ''source'') (\<lambda>s.
     and_then (member_key e ''target'') (\<lambda>t. Inr (s, t)))"

text \<open>
  The set comprehension of one hop, on the keys of the ends of the edges: an edge that
  touches the frontier gives its source when its target is in the frontier, and its
  target otherwise.
\<close>

definition expand :: "(json \<times> json) list \<Rightarrow> json set \<Rightarrow> json set" where
  "expand sts frontier =
     set (map (\<lambda>(s, t). if t \<in> frontier then s else t)
            (filter (\<lambda>(s, t). s \<in> frontier \<or> t \<in> frontier) sts))"

text \<open>\<open>for _ in range(depth)\<close>; the result is \<open>keep\<close>.\<close>

fun hops :: "nat \<Rightarrow> json \<Rightarrow> json set \<Rightarrow> json set \<Rightarrow> error + json set" where
  "hops 0 edges frontier keep = Inr keep"
| "hops (Suc n) edges frontier keep =
     and_then (py_iter edges) (\<lambda>es.
     and_then (traverse endpoints es) (\<lambda>sts.
       hops n edges (expand sts frontier) (keep \<union> expand sts frontier)))"

text \<open>
  The tests of the two comprehensions of the result; \<open>and\<close> reads the target only when
  the source is kept.
\<close>

definition node_kept :: "json set \<Rightarrow> json \<Rightarrow> error + bool" where
  "node_kept keep n = and_then (member_key n ''id'') (\<lambda>i. Inr (i \<in> keep))"

definition edge_kept :: "json set \<Rightarrow> json \<Rightarrow> error + bool" where
  "edge_kept keep e =
     and_then (member_key e ''source'') (\<lambda>s.
       if s \<notin> keep then Inr False
       else and_then (member_key e ''target'') (\<lambda>t. Inr (t \<in> keep)))"

text \<open>\<open>subgraph\<close>; the bounds on \<open>depth\<close> are checked by the framework before the call.\<close>

definition subgraph :: "'d env \<Rightarrow> string \<Rightarrow> string \<Rightarrow> nat \<Rightarrow> files \<Rightarrow> error + json" where
  "subgraph E rid node depth fs =
     and_then (results E rid fs) (\<lambda>data.
     and_then (py_get data ''status'' JNull) (\<lambda>st.
       if st = JStr ''pending'' then Inr data
       else
         and_then (py_index data ''type'') (\<lambda>t.
           if t \<noteq> JStr ''inventory'' then Inl (HTTPException 400)
           else
             and_then (py_index data ''data'') (\<lambda>d.
             and_then (py_index d ''nodes'') (\<lambda>nodes.
             and_then (py_index d ''edges'') (\<lambda>edges.
             and_then (hops depth edges {JStr node} {JStr node}) (\<lambda>keep.
             and_then (comprehension (node_kept keep) nodes) (\<lambda>ns.
             and_then (comprehension (edge_kept keep) edges) (\<lambda>es.
               Inr (JObj [(''nodes'', ns), (''edges'', es)]))))))))))"

section \<open>Reachability, as the specification words it\<close>

text \<open>
  Two ids are adjacent when an edge joins them in either direction; the ids within
  \<open>d\<close> hops of the seed are the seed and, hop after hop, everything adjacent to what has
  been reached.
\<close>

definition adjacent :: "(json \<times> json) list \<Rightarrow> json \<Rightarrow> json \<Rightarrow> bool" where
  "adjacent sts u v = ((u, v) \<in> set sts \<or> (v, u) \<in> set sts)"

definition grow :: "(json \<times> json) list \<Rightarrow> json set \<Rightarrow> json set" where
  "grow sts K = K \<union> {v. \<exists>u \<in> K. adjacent sts u v}"

fun within :: "(json \<times> json) list \<Rightarrow> json \<Rightarrow> nat \<Rightarrow> json set" where
  "within sts seed 0 = {seed}"
| "within sts seed (Suc d) = grow sts (within sts seed d)"

section \<open>Examples\<close>

text \<open>
  A file system for examples, without symbolic links: a relative path is taken from the
  working directory \<open>wd\<close>, each \<open>..\<close> removes the component before it (the root is its
  own parent), and a component with a NUL character is refused.
\<close>

fun collapse :: "string list \<Rightarrow> string list \<Rightarrow> string list" where
  "collapse acc [] = rev acc"
| "collapse acc (c # cs) =
     (if c = ''..'' then collapse (tl acc) cs else collapse (c # acc) cs)"

definition plain_realpath :: "Path \<Rightarrow> Path \<Rightarrow> error + Path" where
  "plain_realpath wd p =
     (if list_ex (\<lambda>c. CHR 0x00 \<in> set c) (parts p) then Inl ValueError
      else Inr (PosixPath True
                 (collapse [] (if anchored p then parts p else parts wd @ parts p))))"

text \<open>
  An environment for examples: the only user known is the current one, and datetimes
  are their ISO text.
\<close>

definition env0 :: "string env" where
  "env0 = \<lparr>ROOT = PosixPath True [''work''],
           DATA_DIR = PosixPath True [''tmp'', ''lintai-ui''],
           home = (\<lambda>u. if u = ''~'' then Some (PosixPath True [''home'', ''user'']) else None),
           realpath = plain_realpath (PosixPath True [''work'']),
           isoformat = (\<lambda>d. d),
           validate_datetime = (\<lambda>j. case j of JStr s \<Rightarrow> Some s | _ \<Rightarrow> None)\<rparr>"

definition run0 :: "Status \<Rightarrow> string RunSummary" where
  "run0 st = \<lparr>run_id = ''r1'', rtype = scan, created = ''2025-01-01T00:00:00+00:00'',
              status = st, path = ''.''\<rparr>"

text \<open>The analysis tool leaves its report at the output path it was given.\<close>

definition tool_writes :: "'d env \<Rightarrow> string \<Rightarrow> RunType \<Rightarrow> json \<Rightarrow> files \<Rightarrow> files" where
  "tool_writes E rid kind report fs = json_dump (report_path E rid kind) report fs"

definition finding_high :: json where
  "finding_high = JObj [(''severity'', JStr ''high''), (''owasp_id'', JStr ''LLM01''),
                        (''location'', JStr ''/tmp/lintai-ui/r1/src/app.py'')]"

definition finding_low :: json where
  "finding_low = JObj [(''severity'', JStr ''low''), (''owasp_id'', JStr ''LLM02''),
                       (''location'', JStr ''/work/lib/util.py'')]"

definition scan_report :: json where
  "scan_report = JObj [(''type'', JStr ''scan''), (''findings'', JArr [finding_high, finding_low])]"

definition files_scan :: files where
  "files_scan = tool_writes env0 ''r1'' scan scan_report (save_runs env0 [run0 Done] Map.empty)"

section \<open>The findings filter, as the specification words it\<close>

text \<open>
  A finding's field, when the finding is a dict that has it; a criterion that is given
  and not empty must hold, one that is absent or empty asks nothing. Severity is an
  exact match, the other two are containment in the field's text.
\<close>

definition field :: "json \<Rightarrow> string \<Rightarrow> json option" where
  "field f k = (case f of JObj kvs \<Rightarrow> map_of kvs k | _ \<Rightarrow> None)"

definition contains_text :: "string \<Rightarrow> json option \<Rightarrow> bool" where
  "contains_text s v = (case v of Some (JStr t) \<Rightarrow> sublist s t | _ \<Rightarrow> False)"

definition applied :: "string option \<Rightarrow> (string \<Rightarrow> bool) \<Rightarrow> bool" where
  "applied c P = (case c of None \<Rightarrow> True | Some s \<Rightarrow> s = [] \<or> P s)"

definition satisfies :: "string option \<Rightarrow> string option \<Rightarrow> string option \<Rightarrow> json \<Rightarrow> bool" where
  "satisfies severity owasp_id component f =
     (applied severity (\<lambda>s. field f ''severity'' = Some (JStr s)) \<and>
      applied owasp_id (\<lambda>s. contains_text s (field f ''owasp_id'')) \<and>
      applied component (\<lambda>s. contains_text s (field f ''location'')))"

text \<open>
  A finding of a scan report is a dict whose category and location, where present, are
  strings.
\<close>

definition text_or_absent :: "json option \<Rightarrow> bool" where
  "text_or_absent v = (case v of None \<Rightarrow> True | Some (JStr t) \<Rightarrow> True | _ \<Rightarrow> False)"

definition finding_ok :: "json \<Rightarrow> bool" where
  "finding_ok f =
     (case f of
        JObj kvs \<Rightarrow> text_or_absent (map_of kvs ''owasp_id'') \<and> text_or_absent (map_of kvs ''location'')
      | _ \<Rightarrow> False)"

text \<open>More example data: a finding as \<open>results\<close> returns it, and an inventory report
  of the shape \<open>{graph: {nodes, edges}}\<close>, with no \<open>type\<close> key.\<close>

definition finding_high_rel :: json where
  "finding_high_rel = JObj [(''severity'', JStr ''high''), (''owasp_id'', JStr ''LLM01''),
                            (''location'', JStr ''src/app.py'')]"

definition graph_report :: json where
  "graph_report = JObj [(''graph'', JObj [(''nodes'', JArr []), (''edges'', JArr [])])]"

definition files_inventory :: files where
  "files_inventory =
     tool_writes env0 ''r1'' inventory graph_report
       (save_runs env0 [(run0 Done)\<lparr>rtype := inventory\<rparr>] Map.empty)"

text \<open>
  The members of a graph that the result keeps: a node or an edge whose field \<open>k\<close> has
  its key in \<open>W\<close>. A node of a graph has an \<open>id\<close> that can be a member of a set.
\<close>

definition has_in :: "json set \<Rightarrow> json \<Rightarrow> string \<Rightarrow> bool" where
  "has_in W x k = (case field x k of Some v \<Rightarrow> pykey v \<in> W | None \<Rightarrow> False)"

definition node_ok :: "json \<Rightarrow> bool" where
  "node_ok n = (case member_key n ''id'' of Inr i \<Rightarrow> True | Inl e \<Rightarrow> False)"

text \<open>Example graphs: a node, an edge, and an inventory report as \<open>subgraph\<close> reads it.\<close>

definition jnode :: "string \<Rightarrow> json" where
  "jnode i = JObj [(''id'', JStr i)]"

definition jedge :: "string \<Rightarrow> string \<Rightarrow> json" where
  "jedge s t = JObj [(''source'', JStr s), (''target'', JStr t)]"

definition inventory_report :: "json list \<Rightarrow> json list \<Rightarrow> json" where
  "inventory_report ns es =
     JObj [(''type'', JStr ''inventory''), (''data'', JObj [(''nodes'', JArr ns), (''edges'', JArr es)])]"

definition files_graph :: "json list \<Rightarrow> json list \<Rightarrow> files" where
  "files_graph ns es =
     tool_writes env0 ''r1'' inventory (inventory_report ns es)
       (save_runs env0 [(run0 Done)\<lparr>rtype := inventory\<rparr>] Map.empty)"

section \<open>Paths and relocation, as the specification words them\<close>

text \<open>
  A directory name has no slash and is neither empty nor \<open>.\<close>. A canonical path is
  absolute and resolves to itself. What is taken for granted of the surroundings:
  \<open>ROOT\<close> and the home directories are made of directory names, and what \<open>realpath\<close>
  returns for a path made of such names is made of them too and is canonical.
\<close>

definition component_ok :: "string \<Rightarrow> bool" where
  "component_ok c = (name_ok c \<and> CHR ''/'' \<notin> set c)"

definition canonical :: "'d env \<Rightarrow> Path \<Rightarrow> bool" where
  "canonical E p = (anchored p \<and> resolve E p = Inr p)"

definition env_ok :: "'d env \<Rightarrow> bool" where
  "env_ok E =
     (list_all component_ok (parts (ROOT E)) \<and>
      (\<forall>c h. home E c = Some h \<longrightarrow> list_all component_ok (parts h)) \<and>
      (\<forall>p q. list_all component_ok (parts p) \<longrightarrow> realpath E p = Inr q \<longrightarrow>
         list_all component_ok (parts q) \<and> canonical E q))"

text \<open>
  A finding's location relative to a directory \<open>base\<close>: defined when the location is a
  non-empty string that can be resolved and whose resolved path lies in \<open>base\<close>. A
  relocated finding has that relative path as its location and is otherwise the same;
  every other finding is left as it is.
\<close>

definition is_dict :: "json \<Rightarrow> bool" where
  "is_dict f = (case f of JObj kvs \<Rightarrow> True | _ \<Rightarrow> False)"

definition location_inside :: "'d env \<Rightarrow> Path \<Rightarrow> json \<Rightarrow> Path option" where
  "location_inside E base f =
     (case field f ''location'' of
        Some (JStr s) \<Rightarrow>
          if s = [] then None
          else (case resolve E (Path_of s) of
                  Inr p \<Rightarrow> relative_to p base
                | Inl e \<Rightarrow> None)
      | _ \<Rightarrow> None)"

definition set_field :: "json \<Rightarrow> string \<Rightarrow> json \<Rightarrow> json" where
  "set_field f k v = (case f of JObj kvs \<Rightarrow> JObj (AList.update k v kvs) | _ \<Rightarrow> f)"

definition relocated :: "'d env \<Rightarrow> Path \<Rightarrow> json \<Rightarrow> json" where
  "relocated E base f =
     (case location_inside E base f of
        Some rel \<Rightarrow> set_field f ''location'' (JStr (path_str rel))
      | None \<Rightarrow> f)"

text \<open>
  More example findings: a location that is not a string, one that cannot be resolved
  (it holds a NUL character), and none at all.
\<close>

definition finding_number :: json where
  "finding_number = JObj [(''severity'', JStr ''low''), (''location'', JNum 7)]"

definition finding_nul :: json where
  "finding_nul =
     JObj [(''severity'', JStr ''low''),
           (''location'', JStr (''/tmp/lintai-ui/r1/a'' @ [CHR 0x00] @ ''b''))]"

definition finding_nowhere :: json where
  "finding_nowhere = JObj [(''severity'', JStr ''low'')]"

definition files_scan_mixed :: files where
  "files_scan_mixed =
     tool_writes env0 ''r1'' scan
       (JObj [(''findings'',
               JArr [finding_high, finding_low, finding_number, finding_nul, finding_nowhere])])
       (save_runs env0 [run0 Done] Map.empty)"

text \<open>
  The path that \<open>_safe\<close> tests: the input expanded and resolved below \<open>ROOT\<close>, or the
  exception that the path library raises on the way.
\<close>

definition candidate :: "'d env \<Rightarrow> string \<Rightarrow> error + Path" where
  "candidate E s =
     and_then (expanduser E (Path_of s)) (\<lambda>q. resolve E (joinpath (ROOT E) q))"

section \<open>Properties: sequencing\<close>

lemma and_then_simps [simp]:
  "and_then (Inr x) f = f x"
  "and_then (Inl e) f = Inl e"
  by (simp_all add: and_then_def)

lemma and_then_eq_Inr:
  "and_then r f = Inr y \<longleftrightarrow> (\<exists>x. r = Inr x \<and> f x = Inr y)"
  by (cases r) simp_all

section \<open>Properties: registry round trip\<close>

lemma validate_dump:
  assumes "codec_ok E"
  shows "model_validate E (model_dump E r) = Inr r"
proof -
  have t: "validate_RunType (Some (JStr (RunType_value (rtype r)))) = Some (rtype r)"
    by (cases "rtype r") (simp_all add: validate_RunType_def RunType_value_def)
  have s: "validate_Status (Some (JStr (Status_value (status r)))) = Some (status r)"
    by (cases "status r") (simp_all add: validate_Status_def Status_value_def)
  have c: "validate_datetime E (JStr (isoformat E (created r))) = Some (created r)"
    using assms by (simp add: codec_ok_def)
  show ?thesis by (simp add: model_dump_def t s c)
qed

lemma traverse_validate_dump:
  assumes "codec_ok E"
  shows "traverse (model_validate E) (map (model_dump E) lst) = Inr lst"
  by (induction lst) (simp_all add: validate_dump [OF assms])

lemma runs_save_runs:
  assumes "codec_ok E"
  shows "runs E (save_runs E lst fs) = Inr lst"
  by (simp add: runs_def save_runs_def json_dump_def json_load_def and_then_def
      traverse_validate_dump [OF assms])

lemma codec_ok_env0: "codec_ok env0"
  by (simp add: codec_ok_def env0_def)

text \<open>
  Claim C6. Saving a list of run records and loading the registry again gives the same
  list, in the same order, whatever the files held before; the datetime codec is the
  library's, taken to print and parse back faithfully.
\<close>

theorem save_runs_reload_identity:
  assumes "codec_ok E"
  shows "runs E (save_runs E lst fs) = Inr lst"
  using assms by (rule runs_save_runs)

theorem save_runs_reload_identity_witness:
  "runs env0 (save_runs env0 [run0 Done, (run0 Pending)\<lparr>run_id := ''r2'', rtype := inventory\<rparr>]
      Map.empty) =
     Inr [run0 Done, (run0 Pending)\<lparr>run_id := ''r2'', rtype := inventory\<rparr>]"
  using save_runs_reload_identity [OF codec_ok_env0] by simp

section \<open>Properties: status updates\<close>

lemma lookup_set_first:
  "lookup_run rid (set_first rid' st lst) =
     (if rid = rid' then map_option (\<lambda>r. r\<lparr>status := st\<rparr>) (lookup_run rid lst)
      else lookup_run rid lst)"
  by (induction lst) (auto simp: lookup_run_def)

lemma status_of_set_status:
  assumes "codec_ok E" and "runs E fs = Inr lst"
  shows "and_then (set_status E rid' st fs) (status_of E rid) =
           Inr (if rid = rid' then map_option (\<lambda>_. st) (lookup_run rid lst)
                else map_option status (lookup_run rid lst))"
  using assms(2)
  by (simp add: and_then_def set_status_def status_of_def runs_save_runs [OF assms(1)]
      lookup_set_first option.map_comp comp_def)

text \<open>
  Claim C1, as the code has it. \<open>_set_status\<close> assigns the status it is given without
  looking at the current one. So a run that is done or error stays done or error under
  every later \<open>_set_status\<close> call with a terminal status: a call on its own id replaces
  the status by the one given, and a call on any other id leaves it as it was.
\<close>

theorem set_status_terminal_stays_terminal:
  assumes "codec_ok E" and "status_of E rid fs = Inr (Some s)"
    and "terminal s" and "terminal st"
  shows "and_then (set_status E rid' st fs) (status_of E rid) =
           Inr (Some (if rid = rid' then st else s)) \<and>
         terminal (if rid = rid' then st else s)"
proof -
  obtain lst where lst: "runs E fs = Inr lst"
    using assms(2) by (auto simp: status_of_def and_then_eq_Inr)
  with assms(2) have "map_option status (lookup_run rid lst) = Some s"
    by (simp add: status_of_def)
  with status_of_set_status [OF assms(1) lst, of rid' st rid] assms(3,4)
  show ?thesis by auto
qed

theorem set_status_terminal_stays_terminal_witness:
  "status_of env0 ''r1'' (save_runs env0 [run0 Done] Map.empty) = Inr (Some Done) \<and>
   and_then (set_status env0 ''r1'' Error (save_runs env0 [run0 Done] Map.empty))
     (status_of env0 ''r1'') = Inr (Some Error) \<and>
   and_then (set_status env0 ''r2'' Error (save_runs env0 [run0 Done] Map.empty))
     (status_of env0 ''r1'') = Inr (Some Done)"
proof -
  have s: "status_of env0 ''r1'' (save_runs env0 [run0 Done] Map.empty) = Inr (Some Done)"
    by (simp add: status_of_def runs_save_runs [OF codec_ok_env0] lookup_run_def run0_def)
  have t: "terminal Done" "terminal Error"
    by (simp_all add: terminal_def)
  from set_status_terminal_stays_terminal [OF codec_ok_env0 s t(1) t(2), of "''r1''"]
    set_status_terminal_stays_terminal [OF codec_ok_env0 s t(1) t(2), of "''r2''"] s
  show ?thesis by simp
qed

text \<open>
  Claim C1 as stated fails: a run that is done becomes error when \<open>_set_status\<close> is
  called on its id with \<open>error\<close>.
\<close>

theorem set_status_terminal_counterexample:
  "status_of env0 ''r1'' (save_runs env0 [run0 Done] Map.empty) = Inr (Some Done) \<and>
   and_then (set_status env0 ''r1'' Error (save_runs env0 [run0 Done] Map.empty))
     (status_of env0 ''r1'') = Inr (Some Error)"
  by (simp add: and_then_def set_status_def status_of_def runs_save_runs [OF codec_ok_env0]
      lookup_run_def run0_def)

section \<open>Properties: creating a run\<close>

text \<open>
  Claim C2, as the code has it. \<open>_add_run\<close> appends the record without looking at the
  ids already there, so it succeeds also on an id that exists. The ids of the registry
  stay unique as long as each new record's id is not yet in it.
\<close>

theorem add_run_appends:
  assumes "codec_ok E" and "runs E fs = Inr lst"
  shows "and_then (add_run E r fs) (runs E) = Inr (lst @ [r]) \<and>
         (distinct (map run_id lst) \<and> run_id r \<notin> set (map run_id lst)
            \<longrightarrow> distinct (map run_id (lst @ [r])))"
  using assms(2) by (simp add: and_then_def add_run_def runs_save_runs [OF assms(1)])

theorem add_run_appends_witness:
  "and_then (add_run env0 ((run0 Pending)\<lparr>run_id := ''r2''\<rparr>) (save_runs env0 [run0 Pending] Map.empty))
     (runs env0) = Inr [run0 Pending, (run0 Pending)\<lparr>run_id := ''r2''\<rparr>] \<and>
   distinct (map run_id [run0 Pending, (run0 Pending)\<lparr>run_id := ''r2''\<rparr>])"
proof -
  have r: "runs env0 (save_runs env0 [run0 Pending] Map.empty) = Inr [run0 Pending]"
    by (rule runs_save_runs [OF codec_ok_env0])
  from add_run_appends [OF codec_ok_env0 r, of "(run0 Pending)\<lparr>run_id := ''r2''\<rparr>"]
  show ?thesis by (simp add: run0_def)
qed

text \<open>
  Claim C2 as stated fails: creating a run whose id is in the registry succeeds and
  leaves two records with that id.
\<close>

theorem add_run_duplicate_counterexample:
  "and_then (add_run env0 (run0 Pending) (save_runs env0 [run0 Pending] Map.empty)) (runs env0)
     = Inr [run0 Pending, run0 Pending] \<and>
   \<not> distinct (map run_id [run0 Pending, run0 Pending])"
  by (simp add: and_then_def add_run_def runs_save_runs [OF codec_ok_env0])

section \<open>Properties: findings filter\<close>

lemma filterM_pure:
  "(\<And>x. x \<in> set xs \<Longrightarrow> p x = Inr (q x)) \<Longrightarrow> filterM p xs = Inr (filter q xs)"
  by (induction xs) simp_all

lemma has_severity_ok:
  "finding_ok f \<Longrightarrow> has_severity s f = Inr (field f ''severity'' = Some (JStr s))"
  by (cases f) (auto simp: finding_ok_def has_severity_def field_def split: option.splits)

lemma py_in_text:
  "text_or_absent v \<Longrightarrow> s \<noteq> [] \<Longrightarrow>
     py_in s (case v of Some x \<Rightarrow> x | None \<Rightarrow> JStr []) = Inr (contains_text s v)"
  by (auto simp: text_or_absent_def contains_text_def split: option.splits json.splits)

lemma has_owasp_id_ok:
  "finding_ok f \<Longrightarrow> s \<noteq> [] \<Longrightarrow>
     has_owasp_id s f = Inr (contains_text s (field f ''owasp_id''))"
  by (cases f) (simp_all add: finding_ok_def has_owasp_id_def field_def py_in_text)

lemma has_component_ok:
  "finding_ok f \<Longrightarrow> s \<noteq> [] \<Longrightarrow>
     has_component s f = Inr (contains_text s (field f ''location''))"
  by (cases f) (simp_all add: finding_ok_def has_component_def field_def py_in_text)

lemma narrow_pure:
  assumes "\<And>s f. f \<in> set fl \<Longrightarrow> s \<noteq> [] \<Longrightarrow> test s f = Inr (P f s)"
  shows "narrow c test (JArr fl) = Inr (JArr (filter (\<lambda>f. applied c (P f)) fl))"
proof (cases c)
  case None
  then show ?thesis by (simp add: narrow_def applied_def)
next
  case (Some s)
  show ?thesis
  proof (cases "s = []")
    case True
    with Some show ?thesis by (simp add: narrow_def applied_def)
  next
    case False
    have "filterM (test s) fl = Inr (filter (\<lambda>f. P f s) fl)"
      using assms False by (intro filterM_pure) simp
    with Some False show ?thesis
      by (simp add: narrow_def applied_def comprehension_def)
  qed
qed

lemma py_get_status:
  "(case map_of kvs k of None \<Rightarrow> JNull | Some v \<Rightarrow> v) = JStr s \<longleftrightarrow> map_of kvs k = Some (JStr s)"
  by (auto split: option.splits)

text \<open>
  Claim C4, as the code has it. Take a report that \<open>results\<close> returns for the run, with
  \<open>type\<close> equal to \<open>scan\<close> and a list of findings. Then \<open>filter_scan\<close> returns the report
  with exactly, and in order, the findings that satisfy every criterion that is given and
  not empty: severity by equality, \<open>owasp_id\<close> and \<open>component\<close> by containment in the
  finding's \<open>owasp_id\<close> and (rewritten) \<open>location\<close>. A criterion given as the empty
  string is not applied. Without criteria the report comes back unchanged.
\<close>

theorem filter_scan_conjunction:
  assumes res: "results E rid fs = Inr (JObj kvs)"
    and nstat: "map_of kvs ''status'' \<noteq> Some (JStr ''pending'')"
    and tp: "map_of kvs ''type'' = Some (JStr ''scan'')"
    and fnd: "map_of kvs ''findings'' = Some (JArr fl)"
    and ok: "list_all finding_ok fl"
  shows "filter_scan E rid severity owasp_id component fs =
           Inr (JObj (AList.update ''findings''
                        (JArr (filter (satisfies severity owasp_id component) fl)) kvs)) \<and>
         filter_scan E rid None None None fs = Inr (JObj kvs)"
proof -
  have ok': "\<And>f. f \<in> set fl \<Longrightarrow> finding_ok f"
    using ok by (simp add: list_all_iff)
  have n1: "narrow severity has_severity (JArr fl) =
      Inr (JArr (filter (\<lambda>f. applied severity (\<lambda>s. field f ''severity'' = Some (JStr s))) fl))"
    by (rule narrow_pure) (simp add: has_severity_ok ok')
  have n2: "narrow owasp_id has_owasp_id (JArr (filter Q fl)) =
      Inr (JArr (filter (\<lambda>f. applied owasp_id (\<lambda>s. contains_text s (field f ''owasp_id'')))
        (filter Q fl)))" for Q
    by (rule narrow_pure) (simp add: has_owasp_id_ok ok')
  have n3: "narrow component has_component (JArr (filter Q fl)) =
      Inr (JArr (filter (\<lambda>f. applied component (\<lambda>s. contains_text s (field f ''location'')))
        (filter Q fl)))" for Q
    by (rule narrow_pure) (simp add: has_component_ok ok')
  have sat: "(\<lambda>f. applied severity (\<lambda>s. field f ''severity'' = Some (JStr s)) \<and>
      applied owasp_id (\<lambda>s. contains_text s (field f ''owasp_id'')) \<and>
      applied component (\<lambda>s. contains_text s (field f ''location''))) =
      satisfies severity owasp_id component"
    by (simp add: satisfies_def fun_eq_iff)
  have 1: "filter_scan E rid severity owasp_id component fs =
           Inr (JObj (AList.update ''findings''
                        (JArr (filter (satisfies severity owasp_id component) fl)) kvs))"
    using nstat
    by (simp add: filter_scan_def res py_get_status tp fnd n1 n2 n3 sat [symmetric] conj_commute conj_left_commute)
  have 2: "filter_scan E rid None None None fs = Inr (JObj kvs)"
    using nstat
    by (simp add: filter_scan_def res py_get_status tp fnd narrow_def update_triv [OF fnd])
  from 1 2 show ?thesis ..
qed

lemma report_path_env0:
  "report_path env0 ''r1'' scan = PosixPath True [''tmp'', ''lintai-ui'', ''r1'', ''scan_report.json'']"
  "report_path env0 ''r1'' inventory = PosixPath True [''tmp'', ''lintai-ui'', ''r1'', ''inventory.json'']"
  "RUNS_FILE env0 = PosixPath True [''tmp'', ''lintai-ui'', ''runs.json'']"
  by (simp_all add: report_path_def RUNS_FILE_def env0_def Path_of_def joinpath_def name_ok_def)

lemma runs_tool_writes:
  "report_path E rid kind \<noteq> RUNS_FILE E \<Longrightarrow> runs E (tool_writes E rid kind rep fs) = runs E fs"
  by (simp add: runs_def tool_writes_def json_dump_def json_load_def)

lemma runs_files_scan: "runs env0 files_scan = Inr [run0 Done]"
  by (simp add: files_scan_def runs_tool_writes report_path_env0 runs_save_runs [OF codec_ok_env0])

lemma run_dir_env0:
  "resolve env0 (joinpath (DATA_DIR env0) (Path_of ''r1'')) =
     Inr (PosixPath True [''tmp'', ''lintai-ui'', ''r1''])"
  by (simp add: resolve_def plain_realpath_def joinpath_def Path_of_def name_ok_def env0_def)

lemma results_files_scan:
  "results env0 ''r1'' files_scan =
     Inr (JObj [(''type'', JStr ''scan''), (''findings'', JArr [finding_high_rel, finding_low])])"
proof -
  note base = run_dir_env0
  have hi: "relocate env0 (PosixPath True [''tmp'', ''lintai-ui'', ''r1'']) finding_high =
      Inr finding_high_rel"
    by (simp add: finding_high_def finding_high_rel_def resolve_def plain_realpath_def env0_def
        Path_of_def name_ok_def relative_to_def is_relative_to_def path_str_def)
  have lo: "relocate env0 (PosixPath True [''tmp'', ''lintai-ui'', ''r1'']) finding_low =
      Inr finding_low"
    by (simp add: finding_low_def resolve_def plain_realpath_def env0_def Path_of_def name_ok_def
        relative_to_def is_relative_to_def)
  have rep: "files_scan (report_path env0 ''r1'' scan) = Some scan_report"
    by (simp add: files_scan_def tool_writes_def json_dump_def)
  show ?thesis
    by (simp add: results_def runs_files_scan lookup_run_def run0_def rep scan_report_def
        base hi lo)
qed

lemma narrow_Some_Nil: "narrow (Some []) test findings = narrow None test findings"
  by (simp add: narrow_def)

text \<open>
  Claim C10. In every state and for every run id, a criterion given as the empty string
  gives the same outcome as the criterion left out, whatever the other two are; so no
  request selects the findings whose severity is the empty string.
\<close>

theorem filter_scan_empty_criterion_absent:
  "filter_scan E rid (Some []) owasp_id component fs =
     filter_scan E rid None owasp_id component fs \<and>
   filter_scan E rid severity (Some []) component fs =
     filter_scan E rid severity None component fs \<and>
   filter_scan E rid severity owasp_id (Some []) fs =
     filter_scan E rid severity owasp_id None fs"
  unfolding filter_scan_def narrow_Some_Nil by simp

theorem filter_scan_empty_criterion_absent_witness:
  "filter_scan env0 ''r1'' (Some []) None None files_scan =
     Inr (JObj [(''type'', JStr ''scan''), (''findings'', JArr [finding_high_rel, finding_low])]) \<and>
   filter_scan env0 ''r1'' None None None files_scan =
     Inr (JObj [(''type'', JStr ''scan''), (''findings'', JArr [finding_high_rel, finding_low])])"
proof -
  have "filter_scan env0 ''r1'' None None None files_scan =
     Inr (JObj [(''type'', JStr ''scan''), (''findings'', JArr [finding_high_rel, finding_low])])"
    by (simp add: filter_scan_def results_files_scan narrow_def)
  with filter_scan_empty_criterion_absent [of env0 "''r1''" None None files_scan]
  show ?thesis by simp
qed

text \<open>
  Claim C8 at a completed inventory run whose report has the shape
  \<open>{graph: {nodes: [], edges: []}}\<close>: \<open>filter_scan\<close> reads \<open>data["type"]\<close>, the report
  has no such key, and the request ends in a \<open>KeyError\<close> instead of the 400 that the
  next line would raise.
\<close>

theorem filter_scan_inventory_report_KeyError:
  "filter_scan env0 ''r1'' None None None files_inventory = Inl KeyError"
proof -
  have r: "runs env0 files_inventory = Inr [(run0 Done)\<lparr>rtype := inventory\<rparr>]"
    by (simp add: files_inventory_def runs_tool_writes report_path_env0
        runs_save_runs [OF codec_ok_env0])
  have rep: "files_inventory (report_path env0 ''r1'' inventory) = Some graph_report"
    by (simp add: files_inventory_def tool_writes_def json_dump_def)
  have "results env0 ''r1'' files_inventory = Inr graph_report"
    by (simp add: results_def r lookup_run_def run0_def rep)
  then show ?thesis
    by (simp add: filter_scan_def graph_report_def)
qed

text \<open>
  When the report does carry a \<open>type\<close> other than \<open>scan\<close>, the request is refused
  with status 400.
\<close>

lemma filter_scan_other_type_400:
  assumes "results E rid fs = Inr (JObj kvs)"
    and "map_of kvs ''status'' \<noteq> Some (JStr ''pending'')"
    and "map_of kvs ''type'' = Some t" and "t \<noteq> JStr ''scan''"
  shows "filter_scan E rid severity owasp_id component fs = Inl (HTTPException 400)"
  using assms by (simp add: filter_scan_def py_get_status)

lemma satisfies_examples:
  "satisfies (Some ''high'') (Some ''LLM'') (Some ''src'') finding_high_rel"
  "\<not> satisfies (Some ''high'') (Some ''LLM'') (Some ''src'') finding_low"
  "list_all finding_ok [finding_high_rel, finding_low]"
  by (simp_all add: satisfies_def applied_def field_def contains_text_def finding_ok_def
      text_or_absent_def finding_high_rel_def finding_low_def sublist_code prefix_code)

theorem filter_scan_conjunction_witness:
  "filter_scan env0 ''r1'' (Some ''high'') (Some ''LLM'') (Some ''src'') files_scan =
     Inr (JObj [(''type'', JStr ''scan''), (''findings'', JArr [finding_high_rel])]) \<and>
   filter_scan env0 ''r1'' None None None files_scan =
     Inr (JObj [(''type'', JStr ''scan''), (''findings'', JArr [finding_high_rel, finding_low])])"
  using filter_scan_conjunction [OF results_files_scan _ _ _ satisfies_examples(3),
      of "Some ''high''" "Some ''LLM''" "Some ''src''"]
  by (simp add: satisfies_examples)

text \<open>
  Claim C4 as stated fails: with severity given as the empty string, the filter returns
  findings whose severity is not the empty string.
\<close>

theorem filter_scan_empty_severity_counterexample:
  "filter_scan env0 ''r1'' (Some []) None None files_scan =
     Inr (JObj [(''type'', JStr ''scan''), (''findings'', JArr [finding_high_rel, finding_low])]) \<and>
   field finding_high_rel ''severity'' = Some (JStr ''high'')"
  by (simp add: filter_scan_def results_files_scan narrow_def field_def finding_high_rel_def)

section \<open>Properties: graph neighbourhood\<close>

lemma expand_iff:
  "v \<in> expand sts F \<longleftrightarrow>
     (\<exists>s t. (s, t) \<in> set sts \<and> (s \<in> F \<or> t \<in> F) \<and> v = (if t \<in> F then s else t))"
proof
  assume "v \<in> expand sts F"
  then obtain x where x: "x \<in> set sts" "case x of (s, t) \<Rightarrow> s \<in> F \<or> t \<in> F"
      "v = (case x of (s, t) \<Rightarrow> if t \<in> F then s else t)"
    by (auto simp: expand_def)
  obtain s t where "x = (s, t)" by (cases x)
  with x show "\<exists>s t. (s, t) \<in> set sts \<and> (s \<in> F \<or> t \<in> F) \<and> v = (if t \<in> F then s else t)"
    by auto
next
  assume "\<exists>s t. (s, t) \<in> set sts \<and> (s \<in> F \<or> t \<in> F) \<and> v = (if t \<in> F then s else t)"
  then obtain s t where st: "(s, t) \<in> set sts" "s \<in> F \<or> t \<in> F" "v = (if t \<in> F then s else t)"
    by blast
  then have "(s, t) \<in> {x \<in> set sts. case x of (s, t) \<Rightarrow> s \<in> F \<or> t \<in> F}"
    by simp
  then have "(case (s, t) of (s, t) \<Rightarrow> if t \<in> F then s else t) \<in> expand sts F"
    unfolding expand_def set_map set_filter by (rule imageI)
  with st(3) show "v \<in> expand sts F" by simp
qed

lemma expand_adjacent: "v \<in> expand sts F \<Longrightarrow> \<exists>u \<in> F. adjacent sts u v"
  by (auto simp: expand_iff adjacent_def split: if_splits)

lemma adjacent_expand:
  assumes "adjacent sts u v" and "u \<in> F" and "v \<notin> F"
  shows "v \<in> expand sts F"
  using assms unfolding adjacent_def expand_iff by (metis (full_types))

lemma keep_expand:
  assumes "F \<subseteq> K" and "\<And>u v. u \<in> K - F \<Longrightarrow> adjacent sts u v \<Longrightarrow> v \<in> K"
  shows "K \<union> expand sts F = grow sts K"
proof
  show "K \<union> expand sts F \<subseteq> grow sts K"
    using assms(1) expand_adjacent by (fastforce simp: grow_def)
next
  show "grow sts K \<subseteq> K \<union> expand sts F"
  proof
    fix v assume "v \<in> grow sts K"
    then consider "v \<in> K" | u where "u \<in> K" "adjacent sts u v"
      by (auto simp: grow_def)
    then show "v \<in> K \<union> expand sts F"
    proof cases
      case 1 then show ?thesis by simp
    next
      case 2
      show ?thesis
      proof (cases "u \<in> F")
        case False
        with 2 assms(2) show ?thesis by blast
      next
        case True
        show ?thesis
        proof (cases "v \<in> F")
          case True with assms(1) show ?thesis by blast
        next
          case False
          with 2 \<open>u \<in> F\<close> show ?thesis by (simp add: adjacent_expand)
        qed
      qed
    qed
  qed
qed

lemma hops_grow:
  assumes "py_iter edges = Inr es" and "traverse endpoints es = Inr sts"
    and "F \<subseteq> K" and "\<And>u v. u \<in> K - F \<Longrightarrow> adjacent sts u v \<Longrightarrow> v \<in> K"
  shows "hops n edges F K = Inr ((grow sts ^^ n) K)"
  using assms(3,4)
proof (induction n arbitrary: F K)
  case 0
  then show ?case by simp
next
  case (Suc n)
  have k: "K \<union> expand sts F = grow sts K"
    using Suc.prems by (rule keep_expand)
  have "hops n edges (expand sts F) (grow sts K) = Inr ((grow sts ^^ n) (grow sts K))"
  proof (rule Suc.IH)
    show "expand sts F \<subseteq> grow sts K" using k by blast
  next
    fix u v assume "u \<in> grow sts K - expand sts F" and "adjacent sts u v"
    then have "u \<in> K" using k by blast
    with \<open>adjacent sts u v\<close> show "v \<in> grow sts K" by (auto simp: grow_def)
  qed
  then show ?case
    by (simp add: assms(1,2) k funpow_swap1)
qed

lemma within_funpow: "within sts seed d = (grow sts ^^ d) {seed}"
  by (induction d) simp_all

lemma hops_within:
  assumes "traverse endpoints es = Inr sts"
  shows "hops d (JArr es) {seed} {seed} = Inr (within sts seed d)"
  using hops_grow [of "JArr es" es sts "{seed}" "{seed}" d] assms
  by (simp add: within_funpow)

lemma node_kept_ok:
  "node_ok n \<Longrightarrow> node_kept W n = Inr (has_in W n ''id'')"
  by (cases n)
    (auto simp: node_ok_def node_kept_def member_key_def has_in_def field_def
      split: option.splits if_splits)

lemma traverse_Inr_mem:
  "traverse f xs = Inr ys \<Longrightarrow> x \<in> set xs \<Longrightarrow> \<exists>y \<in> set ys. f x = Inr y"
  by (induction xs arbitrary: ys) (auto split: sum.splits)

lemma traverse_Inr_all:
  "traverse f xs = Inr ys \<Longrightarrow> x \<in> set xs \<Longrightarrow> \<exists>y. f x = Inr y"
  by (induction xs arbitrary: ys) (auto split: sum.splits)

lemma edge_kept_ok:
  assumes "endpoints e = Inr st"
  shows "edge_kept W e = Inr (has_in W e ''source'' \<and> has_in W e ''target'')"
  using assms
  by (cases e)
    (auto simp: endpoints_def edge_kept_def member_key_def has_in_def field_def and_then_eq_Inr
      split: option.splits if_splits)

lemma subgraph_result:
  assumes res: "results E rid fs = Inr (JObj kvs)"
    and nstat: "map_of kvs ''status'' \<noteq> Some (JStr ''pending'')"
    and tp: "map_of kvs ''type'' = Some (JStr ''inventory'')"
    and dat: "map_of kvs ''data'' = Some (JObj g)"
    and nd: "map_of g ''nodes'' = Some (JArr ns)"
    and ed: "map_of g ''edges'' = Some (JArr es)"
    and nodes_ok: "list_all node_ok ns"
    and edges_ok: "traverse endpoints es = Inr sts"
  shows "subgraph E rid node d fs =
           Inr (JObj
             [(''nodes'', JArr (filter (\<lambda>n. has_in (within sts (JStr node) d) n ''id'') ns)),
              (''edges'', JArr (filter (\<lambda>e. has_in (within sts (JStr node) d) e ''source'' \<and>
                                            has_in (within sts (JStr node) d) e ''target'') es))])"
proof -
  let ?W = "within sts (JStr node) d"
  have h: "hops d (JArr es) {JStr node} {JStr node} = Inr ?W"
    using edges_ok by (rule hops_within)
  have n: "filterM (node_kept ?W) ns = Inr (filter (\<lambda>n. has_in ?W n ''id'') ns)"
    using nodes_ok by (intro filterM_pure) (simp add: node_kept_ok list_all_iff)
  have e: "filterM (edge_kept ?W) es =
      Inr (filter (\<lambda>e. has_in ?W e ''source'' \<and> has_in ?W e ''target'') es)"
  proof (rule filterM_pure)
    fix x assume "x \<in> set es"
    then obtain st where "endpoints x = Inr st"
      using traverse_Inr_all [OF edges_ok] by blast
    then show "edge_kept ?W x = Inr (has_in ?W x ''source'' \<and> has_in ?W x ''target'')"
      by (rule edge_kept_ok)
  qed
  show ?thesis
    using nstat
    by (simp add: subgraph_def res py_get_status tp dat nd ed h comprehension_def n e)
qed

lemma within_isolated:
  assumes "list_all (\<lambda>(s, t). s \<noteq> seed \<and> t \<noteq> seed) sts"
  shows "within sts seed d = {seed}"
proof (induction d)
  case 0
  show ?case by simp
next
  case (Suc d)
  have "\<not> adjacent sts seed v" for v
    using assms by (auto simp: adjacent_def list_all_iff)
  with Suc show ?case by (simp add: grow_def)
qed

lemma within_relpow:
  "within sts seed d = {v. \<exists>k\<le>d. (seed, v) \<in> {(u, v). adjacent sts u v} ^^ k}"
proof (induction d)
  case 0
  show ?case by auto
next
  case (Suc d)
  show ?case
  proof (rule set_eqI)
    fix v
    show "v \<in> within sts seed (Suc d) \<longleftrightarrow>
        v \<in> {v. \<exists>k\<le>Suc d. (seed, v) \<in> {(u, v). adjacent sts u v} ^^ k}"
    proof
      assume "v \<in> within sts seed (Suc d)"
      then consider "v \<in> within sts seed d"
        | u where "u \<in> within sts seed d" "adjacent sts u v"
        by (auto simp: grow_def)
      then show "v \<in> {v. \<exists>k\<le>Suc d. (seed, v) \<in> {(u, v). adjacent sts u v} ^^ k}"
      proof cases
        case 1
        with Suc show ?thesis by (auto intro: le_SucI)
      next
        case 2
        with Suc obtain k where "k \<le> d" "(seed, u) \<in> {(u, v). adjacent sts u v} ^^ k"
          by auto
        with 2(2) have "(seed, v) \<in> {(u, v). adjacent sts u v} ^^ Suc k"
          by auto
        with \<open>k \<le> d\<close> show ?thesis
          by (metis (mono_tags, lifting) Suc_le_mono mem_Collect_eq)
      qed
    next
      assume "v \<in> {v. \<exists>k\<le>Suc d. (seed, v) \<in> {(u, v). adjacent sts u v} ^^ k}"
      then obtain k where k: "k \<le> Suc d" "(seed, v) \<in> {(u, v). adjacent sts u v} ^^ k"
        by auto
      show "v \<in> within sts seed (Suc d)"
      proof (cases "k \<le> d")
        case True
        with k Suc show ?thesis by (auto simp: grow_def)
      next
        case False
        with k have "k = Suc d" by simp
        with k obtain u where "(seed, u) \<in> {(u, v). adjacent sts u v} ^^ d" "adjacent sts u v"
          by auto
        with Suc show ?thesis by (auto simp: grow_def)
      qed
    qed
  qed
qed

lemma results_files_graph:
  "results env0 ''r1'' (files_graph ns es) = Inr (inventory_report ns es)"
proof -
  have r: "runs env0 (files_graph ns es) = Inr [(run0 Done)\<lparr>rtype := inventory\<rparr>]"
    by (simp add: files_graph_def runs_tool_writes report_path_env0
        runs_save_runs [OF codec_ok_env0])
  have rep: "files_graph ns es (report_path env0 ''r1'' inventory) = Some (inventory_report ns es)"
    by (simp add: files_graph_def tool_writes_def json_dump_def)
  show ?thesis
    by (simp add: results_def r lookup_run_def run0_def rep)
qed

lemma path_graph_ok:
  "list_all node_ok [jnode ''A'', jnode ''B'', jnode ''C'', jnode ''D'']"
  "traverse endpoints [jedge ''A'' ''B'', jedge ''B'' ''C'', jedge ''C'' ''D''] =
     Inr [(JStr ''A'', JStr ''B''), (JStr ''B'', JStr ''C''), (JStr ''C'', JStr ''D'')]"
  by (simp_all add: node_ok_def jnode_def jedge_def member_key_def endpoints_def)

text \<open>
  Claim C3. For an inventory report as \<open>subgraph\<close> reads it (\<open>type\<close> is \<open>inventory\<close>,
  the graph is under \<open>data\<close>), whose nodes have ids and whose edges have a source and a
  target, \<open>subgraph\<close> returns, in their order, the nodes whose id is within \<open>d\<close>
  undirected hops of the seed and exactly the edges with both ends among those ids; an id
  is within \<open>d\<close> hops when at most \<open>d\<close> steps along edges, taken in either direction,
  lead to it from the seed. Ids are the same when Python's \<open>==\<close> says so (\<open>sts\<close> holds the
  keys of the ends of the edges). This holds for every depth, so for those from 1 to 5.
\<close>

theorem subgraph_is_neighbourhood:
  assumes "results E rid fs = Inr (JObj kvs)"
    and "map_of kvs ''status'' \<noteq> Some (JStr ''pending'')"
    and "map_of kvs ''type'' = Some (JStr ''inventory'')"
    and "map_of kvs ''data'' = Some (JObj g)"
    and "map_of g ''nodes'' = Some (JArr ns)"
    and "map_of g ''edges'' = Some (JArr es)"
    and "list_all node_ok ns"
    and "traverse endpoints es = Inr sts"
  shows "subgraph E rid node d fs =
           Inr (JObj
             [(''nodes'', JArr (filter (\<lambda>n. has_in (within sts (JStr node) d) n ''id'') ns)),
              (''edges'', JArr (filter (\<lambda>e. has_in (within sts (JStr node) d) e ''source'' \<and>
                                            has_in (within sts (JStr node) d) e ''target'') es))]) \<and>
         within sts (JStr node) d =
           {v. \<exists>k\<le>d. (JStr node, v) \<in> {(u, v). adjacent sts u v} ^^ k}"
  using subgraph_result [OF assms] within_relpow by blast

theorem subgraph_is_neighbourhood_witness:
  "subgraph env0 ''r1'' ''A'' 1
      (files_graph [jnode ''A'', jnode ''B'', jnode ''C'', jnode ''D'']
                   [jedge ''A'' ''B'', jedge ''B'' ''C'', jedge ''C'' ''D'']) =
     Inr (JObj [(''nodes'', JArr [jnode ''A'', jnode ''B'']),
                (''edges'', JArr [jedge ''A'' ''B''])]) \<and>
   subgraph env0 ''r1'' ''A'' 2
      (files_graph [jnode ''A'', jnode ''B'', jnode ''C'', jnode ''D'']
                   [jedge ''A'' ''B'', jedge ''B'' ''C'', jedge ''C'' ''D'']) =
     Inr (JObj [(''nodes'', JArr [jnode ''A'', jnode ''B'', jnode ''C'']),
                (''edges'', JArr [jedge ''A'' ''B'', jedge ''B'' ''C''])])"
proof -
  have "subgraph env0 ''r1'' ''A'' (Suc 0)
      (files_graph [jnode ''A'', jnode ''B'', jnode ''C'', jnode ''D'']
                   [jedge ''A'' ''B'', jedge ''B'' ''C'', jedge ''C'' ''D'']) =
     Inr (JObj [(''nodes'', JArr [jnode ''A'', jnode ''B'']),
                (''edges'', JArr [jedge ''A'' ''B''])])"
    using subgraph_is_neighbourhood
        [OF results_files_graph [unfolded inventory_report_def] _ _ _ _ _ path_graph_ok,
          where node = "''A''" and d = "Suc 0", THEN conjunct1]
    by (simp add: has_in_def field_def jnode_def jedge_def grow_def adjacent_def)
  moreover have "subgraph env0 ''r1'' ''A'' (Suc (Suc 0))
      (files_graph [jnode ''A'', jnode ''B'', jnode ''C'', jnode ''D'']
                   [jedge ''A'' ''B'', jedge ''B'' ''C'', jedge ''C'' ''D'']) =
     Inr (JObj [(''nodes'', JArr [jnode ''A'', jnode ''B'', jnode ''C'']),
                (''edges'', JArr [jedge ''A'' ''B'', jedge ''B'' ''C''])])"
    using subgraph_is_neighbourhood
        [OF results_files_graph [unfolded inventory_report_def] _ _ _ _ _ path_graph_ok,
          where node = "''A''" and d = "Suc (Suc 0)", THEN conjunct1]
    by (simp add: has_in_def field_def jnode_def jedge_def grow_def adjacent_def)
  ultimately show ?thesis by (simp add: numeral_2_eq_2)
qed

lemma member_key_has_in:
  "member_key x k = Inr y \<Longrightarrow> has_in W x k = (y \<in> W)"
  by (cases x)
    (auto simp: member_key_def has_in_def field_def and_then_eq_Inr split: option.splits if_splits)

lemma endpoints_member_key:
  "endpoints e = Inr (s, t) \<Longrightarrow> member_key e ''source'' = Inr s \<and> member_key e ''target'' = Inr t"
  by (auto simp: endpoints_def and_then_eq_Inr)

text \<open>
  Claim C9. Take a graph: every node has an id and every edge joins two listed nodes. When
  the seed is the id of no node, \<open>subgraph\<close> returns no nodes and no edges, at every
  depth, and raises nothing.
\<close>

theorem subgraph_unknown_seed_empty:
  assumes "results E rid fs = Inr (JObj kvs)"
    and "map_of kvs ''status'' \<noteq> Some (JStr ''pending'')"
    and "map_of kvs ''type'' = Some (JStr ''inventory'')"
    and "map_of kvs ''data'' = Some (JObj g)"
    and "map_of g ''nodes'' = Some (JArr ns)"
    and "map_of g ''edges'' = Some (JArr es)"
    and ids: "traverse (\<lambda>n. member_key n ''id'') ns = Inr ids"
    and sts: "traverse endpoints es = Inr sts"
    and joined: "list_all (\<lambda>(s, t). s \<in> set ids \<and> t \<in> set ids) sts"
    and absent: "JStr node \<notin> set ids"
  shows "subgraph E rid node d fs = Inr (JObj [(''nodes'', JArr []), (''edges'', JArr [])])"
proof -
  have nodes_ok: "list_all node_ok ns"
    using traverse_Inr_all [OF ids] by (fastforce simp: list_all_iff node_ok_def)
  have "list_all (\<lambda>(s, t). s \<noteq> JStr node \<and> t \<noteq> JStr node) sts"
    using joined absent by (auto simp: list_all_iff)
  then have w: "within sts (JStr node) d = {JStr node}"
    by (rule within_isolated)
  have "\<not> has_in {JStr node} n ''id''" if n_in: "n \<in> set ns" for n
  proof -
    obtain k where k: "k \<in> set ids" "member_key n ''id'' = Inr k"
      using traverse_Inr_mem [OF ids n_in] by blast
    with absent show ?thesis by (auto simp: member_key_has_in)
  qed
  then have n: "filter (\<lambda>n. has_in {JStr node} n ''id'') ns = []"
    by (auto simp: filter_empty_conv)
  have "\<not> has_in {JStr node} e ''source''" if e_in: "e \<in> set es" for e
  proof -
    obtain st where st: "st \<in> set sts" "endpoints e = Inr st"
      using traverse_Inr_mem [OF sts e_in] by blast
    obtain s t where "st = (s, t)" by (cases st)
    with st joined absent endpoints_member_key [of e s t] show ?thesis
      by (auto simp: member_key_has_in list_all_iff)
  qed
  then have e: "filter (\<lambda>e. has_in {JStr node} e ''source'' \<and> has_in {JStr node} e ''target'') es = []"
    by (auto simp: filter_empty_conv)
  show ?thesis
    using subgraph_result [OF assms(1-6) nodes_ok sts, of node d] by (simp add: w n e)
qed

lemma isolated_graph_ok:
  "traverse (\<lambda>n. member_key n ''id'') [jnode ''A'', jnode ''B''] = Inr [JStr ''A'', JStr ''B'']"
  "traverse endpoints [jedge ''A'' ''B''] = Inr [(JStr ''A'', JStr ''B'')]"
  "list_all (\<lambda>(s, t). s \<in> set [JStr ''A'', JStr ''B''] \<and> t \<in> set [JStr ''A'', JStr ''B''])
     [(JStr ''A'', JStr ''B'')]"
  "JStr ''X'' \<notin> set [JStr ''A'', JStr ''B'']"
  by (simp_all add: jnode_def jedge_def member_key_def endpoints_def)

theorem subgraph_unknown_seed_empty_witness:
  "subgraph env0 ''r1'' ''X'' 1 (files_graph [jnode ''A'', jnode ''B''] [jedge ''A'' ''B'']) =
     Inr (JObj [(''nodes'', JArr []), (''edges'', JArr [])]) \<and>
   subgraph env0 ''r1'' ''X'' 5 (files_graph [jnode ''A'', jnode ''B''] [jedge ''A'' ''B'']) =
     Inr (JObj [(''nodes'', JArr []), (''edges'', JArr [])])"
  using subgraph_unknown_seed_empty
    [OF results_files_graph [unfolded inventory_report_def] _ _ _ _ _ isolated_graph_ok,
      where d = 1]
    subgraph_unknown_seed_empty
    [OF results_files_graph [unfolded inventory_report_def] _ _ _ _ _ isolated_graph_ok,
      where d = 5]
  by simp

text \<open>Python's equality at work: an edge from \<open>true\<close> starts at the node whose id is 1.\<close>

lemma subgraph_true_is_one:
  "subgraph env0 ''r1'' ''X'' 2
     (files_graph [jnode ''X'', jnode ''Y'', JObj [(''id'', JNum 1)]]
        [JObj [(''source'', JStr ''X''), (''target'', JNum 1)],
         JObj [(''source'', JBool True), (''target'', JStr ''Y'')]]) =
   Inr (JObj [(''nodes'', JArr [jnode ''X'', jnode ''Y'', JObj [(''id'', JNum 1)]]),
              (''edges'', JArr [JObj [(''source'', JStr ''X''), (''target'', JNum 1)],
                               JObj [(''source'', JBool True), (''target'', JStr ''Y'')]])])"
proof -
  have ok: "list_all node_ok [jnode ''X'', jnode ''Y'', JObj [(''id'', JNum 1)]]"
    "traverse endpoints [JObj [(''source'', JStr ''X''), (''target'', JNum 1)],
         JObj [(''source'', JBool True), (''target'', JStr ''Y'')]] =
       Inr [(JStr ''X'', JNum 1), (JNum 1, JStr ''Y'')]"
    by (simp_all add: node_ok_def jnode_def member_key_def endpoints_def)
  show ?thesis
    using subgraph_result
      [OF results_files_graph [unfolded inventory_report_def] _ _ _ _ _ ok,
        where node = "''X''" and d = "Suc (Suc 0)"]
    by (simp add: has_in_def field_def jnode_def grow_def adjacent_def numeral_2_eq_2)
qed

section \<open>Properties: workspace guard\<close>

lemma split_on_no_sep: "sep \<notin> set c \<Longrightarrow> split_on sep c = [c]"
  by (induction c) auto

lemma split_on_append:
  "sep \<notin> set c \<Longrightarrow> split_on sep (c @ sep # rest) = c # split_on sep rest"
  by (induction c) auto

lemma split_on_pieces: "c \<in> set (split_on sep s) \<Longrightarrow> sep \<notin> set c"
  by (induction s arbitrary: c) (auto split: if_splits list.splits)

lemma split_join_parts:
  "list_all component_ok cs \<Longrightarrow> filter name_ok (split_on CHR ''/'' (join_parts cs)) = cs"
proof (induction cs rule: join_parts.induct)
  case 1
  show ?case by (simp add: name_ok_def)
next
  case (2 c)
  then show ?case by (simp add: component_ok_def split_on_no_sep)
next
  case (3 c c' cs)
  then show ?case by (simp add: component_ok_def split_on_append)
qed

lemma Path_of_path_str_anchored:
  "anchored p \<Longrightarrow> list_all component_ok (parts p) \<Longrightarrow> Path_of (path_str p) = p"
  by (cases p) (simp add: Path_of_def path_str_def split_join_parts name_ok_def)

lemma Path_of_components: "list_all component_ok (parts (Path_of s))"
  by (auto simp: Path_of_def list_all_iff component_ok_def dest: split_on_pieces)

lemma expanduser_anchored: "anchored p \<Longrightarrow> expanduser E p = Inr p"
  by (simp add: expanduser_def split: list.splits)

lemma joinpath_anchored: "anchored p \<Longrightarrow> joinpath r p = p"
  by (simp add: joinpath_def)

lemma expanduser_components:
  assumes "env_ok E" and "list_all component_ok (parts p)" and "expanduser E p = Inr q"
  shows "list_all component_ok (parts q)"
  using assms
  by (auto simp: expanduser_def env_ok_def list_all_iff split: list.splits if_splits option.splits)

lemma candidate_canonical:
  assumes "env_ok E" and "candidate E s = Inr p"
  shows "list_all component_ok (parts p) \<and> canonical E p"
proof -
  from assms(2) obtain q where q: "expanduser E (Path_of s) = Inr q"
      "realpath E (joinpath (ROOT E) q) = Inr p"
    by (auto simp: candidate_def and_then_eq_Inr resolve_def)
  have "list_all component_ok (parts q)"
    using assms(1) Path_of_components q(1) by (rule expanduser_components)
  moreover have "list_all component_ok (parts (ROOT E))"
    using assms(1) by (simp add: env_ok_def)
  ultimately have "list_all component_ok (parts (joinpath (ROOT E) q))"
    by (simp add: joinpath_def)
  with assms(1) q(2) show ?thesis
    unfolding env_ok_def by blast
qed

lemma safe_candidate:
  "safe E s =
     and_then (candidate E s) (\<lambda>p.
       if \<not> is_relative_to p (ROOT E) then Inl (HTTPException 403) else Inr p)"
  by (cases "expanduser E (Path_of s)") (simp_all add: safe_def candidate_def)

lemma candidate_again:
  assumes "anchored p" and "list_all component_ok (parts p)" and "canonical E p"
  shows "candidate E (path_str p) = Inr p"
  using assms
  by (simp add: candidate_def Path_of_path_str_anchored expanduser_anchored joinpath_anchored
      canonical_def)

text \<open>
  Claim C7, as the code has it. \<open>_safe\<close> expands and resolves the input below \<open>ROOT\<close>.
  When the path library raises on the way (\<open>RuntimeError\<close> for a \<open>~user\<close> whose home is
  not known, \<open>ValueError\<close> for an embedded NUL), \<open>_safe\<close> ends in that exception. Otherwise
  the resolved path is canonical, and \<open>_safe\<close> returns it when it lies in \<open>ROOT\<close> and
  raises the 403 exception when it does not. Resolving the text of a returned path
  returns that path again.
\<close>

theorem safe_inside_or_403_idempotent:
  assumes "env_ok E"
  shows "case candidate E s of
           Inl e \<Rightarrow> safe E s = Inl e
         | Inr p \<Rightarrow>
             canonical E p \<and>
             (if is_relative_to p (ROOT E)
              then safe E s = Inr p \<and> safe E (path_str p) = Inr p
              else safe E s = Inl (HTTPException 403))"
proof (cases "candidate E s")
  case (Inl e)
  then show ?thesis by (simp add: safe_candidate)
next
  case (Inr p)
  have c: "list_all component_ok (parts p)" "canonical E p"
    using candidate_canonical [OF assms Inr] by simp_all
  then have "candidate E (path_str p) = Inr p"
    by (intro candidate_again) (simp_all add: canonical_def)
  with Inr c(2) show ?thesis by (simp add: safe_candidate)
qed

lemma collapse_subset: "set (collapse acc cs) \<subseteq> set acc \<union> set cs"
proof (induction cs arbitrary: acc)
  case Nil
  show ?case by simp
next
  case (Cons c cs)
  have "set (tl acc) \<subseteq> set acc" by (cases acc) auto
  with Cons.IH [of "tl acc"] Cons.IH [of "c # acc"] show ?case by auto
qed

lemma collapse_no_dotdot:
  "''..'' \<notin> set acc \<Longrightarrow> ''..'' \<notin> set (collapse acc cs)"
proof (induction cs arbitrary: acc)
  case Nil
  then show ?case by simp
next
  case (Cons c cs)
  have "''..'' \<notin> set (tl acc)" using Cons.prems by (cases acc) auto
  with Cons show ?case by auto
qed

lemma collapse_fixed: "''..'' \<notin> set cs \<Longrightarrow> collapse acc cs = rev acc @ cs"
  by (induction cs arbitrary: acc) auto

lemma plain_realpath_ok:
  assumes wd: "list_all component_ok (parts wd)" "\<not> list_ex (\<lambda>c. CHR 0x00 \<in> set c) (parts wd)"
    and p: "list_all component_ok (parts p)" and q: "plain_realpath wd p = Inr q"
  shows "list_all component_ok (parts q) \<and> anchored q \<and> plain_realpath wd q = Inr q"
proof -
  let ?cs = "if anchored p then parts p else parts wd @ parts p"
  from q have nul: "\<not> list_ex (\<lambda>c. CHR 0x00 \<in> set c) (parts p)"
    and q': "q = PosixPath True (collapse [] ?cs)"
    by (auto simp: plain_realpath_def split: if_splits)
  have sub: "set (parts q) \<subseteq> set (parts wd) \<union> set (parts p)"
    using collapse_subset [of "[]" ?cs] by (auto simp: q' split: if_splits)
  with wd(1) p have ok: "list_all component_ok (parts q)"
    by (auto simp: list_all_iff)
  from sub wd(2) nul have "\<not> list_ex (\<lambda>c. CHR 0x00 \<in> set c) (parts q)"
    by (auto simp: list_ex_iff)
  moreover have "''..'' \<notin> set (parts q)"
    using collapse_no_dotdot [of "[]" ?cs] by (simp add: q')
  ultimately have "plain_realpath wd q = Inr q"
    by (simp add: plain_realpath_def q' collapse_fixed)
  with ok show ?thesis by (simp add: q')
qed

lemma env_ok_env0: "env_ok env0"
proof -
  have wd: "list_all component_ok (parts (PosixPath True [''work'']))"
    "\<not> list_ex (\<lambda>c. CHR 0x00 \<in> set c) (parts (PosixPath True [''work'']))"
    by (simp_all add: component_ok_def name_ok_def)
  have "list_all component_ok (parts q) \<and> canonical env0 q"
    if "list_all component_ok (parts p)" and "realpath env0 p = Inr q" for p q
    using plain_realpath_ok [OF wd that(1), of q] that(2)
    by (simp add: canonical_def resolve_def env0_def)
  moreover have "list_all component_ok (parts (ROOT env0))"
    by (simp add: env0_def component_ok_def name_ok_def)
  moreover have "list_all component_ok (parts h)" if "home env0 c = Some h" for c h
    using that by (auto simp: env0_def component_ok_def name_ok_def split: if_splits)
  ultimately show ?thesis
    unfolding env_ok_def by blast
qed

lemma candidate_examples:
  "candidate env0 ''src/../lib/./util.py'' = Inr (PosixPath True [''work'', ''lib'', ''util.py''])"
  "candidate env0 ''../etc/passwd'' = Inr (PosixPath True [''etc'', ''passwd''])"
  "candidate env0 ''~nosuchuser/x'' = Inl RuntimeError"
  "candidate env0 [CHR ''a'', CHR 0x00, CHR ''b''] = Inl ValueError"
  by (simp_all add: candidate_def Path_of_def name_ok_def expanduser_def joinpath_def resolve_def
      plain_realpath_def env0_def)

theorem safe_inside_or_403_idempotent_witness:
  "safe env0 ''src/../lib/./util.py'' = Inr (PosixPath True [''work'', ''lib'', ''util.py'']) \<and>
   safe env0 (path_str (PosixPath True [''work'', ''lib'', ''util.py''])) =
     Inr (PosixPath True [''work'', ''lib'', ''util.py'']) \<and>
   path_str (PosixPath True [''work'', ''lib'', ''util.py'']) = ''/work/lib/util.py'' \<and>
   safe env0 ''../etc/passwd'' = Inl (HTTPException 403) \<and>
   safe env0 [CHR ''a'', CHR 0x00, CHR ''b''] = Inl ValueError"
proof -
  have r: "is_relative_to (PosixPath True [''work'', ''lib'', ''util.py'']) (ROOT env0)"
    "\<not> is_relative_to (PosixPath True [''etc'', ''passwd'']) (ROOT env0)"
    by (simp_all add: is_relative_to_def env0_def)
  have 1: "safe env0 ''src/../lib/./util.py'' = Inr (PosixPath True [''work'', ''lib'', ''util.py'']) \<and>
      safe env0 (path_str (PosixPath True [''work'', ''lib'', ''util.py''])) =
        Inr (PosixPath True [''work'', ''lib'', ''util.py''])"
    using safe_inside_or_403_idempotent [OF env_ok_env0, of "''src/../lib/./util.py''",
        unfolded candidate_examples sum.case, THEN conjunct2] r(1)
    by simp
  have 2: "safe env0 ''../etc/passwd'' = Inl (HTTPException 403)"
    using safe_inside_or_403_idempotent [OF env_ok_env0, of "''../etc/passwd''",
        unfolded candidate_examples sum.case, THEN conjunct2] r(2)
    by simp
  have 3: "safe env0 [CHR ''a'', CHR 0x00, CHR ''b''] = Inl ValueError"
    using safe_inside_or_403_idempotent [OF env_ok_env0, of "[CHR ''a'', CHR 0x00, CHR ''b'']",
        unfolded candidate_examples sum.case] .
  have 4: "path_str (PosixPath True [''work'', ''lib'', ''util.py'']) = ''/work/lib/util.py''"
    by (simp add: path_str_def)
  from 1 2 3 4 show ?thesis by blast
qed

text \<open>
  Claim C7 as stated fails: on \<open>~nosuchuser/x\<close>, and on a text with a NUL character,
  \<open>_safe\<close> neither returns a path nor raises the 403 exception.
\<close>

theorem safe_library_exception_counterexample:
  "safe env0 ''~nosuchuser/x'' = Inl RuntimeError \<and>
   safe env0 [CHR ''a'', CHR 0x00, CHR ''b''] = Inl ValueError"
  by (simp add: safe_candidate candidate_examples)

section \<open>Properties: relocating findings\<close>

lemma relocate_dict: "is_dict f \<Longrightarrow> relocate E base f = Inr (relocated E base f)"
  by (cases f)
    (auto simp: is_dict_def relocated_def location_inside_def field_def set_field_def
      split: option.splits json.splits sum.splits)

lemma traverse_pure:
  "(\<And>x. x \<in> set xs \<Longrightarrow> f x = Inr (g x)) \<Longrightarrow> traverse f xs = Inr (map g xs)"
  by (induction xs) simp_all

lemma relative_to_joinpath:
  "relative_to p base = Some rel \<Longrightarrow> anchored base \<Longrightarrow> joinpath base rel = p"
  by (cases p) (auto simp: relative_to_def is_relative_to_def joinpath_def prefix_def split: if_splits)

text \<open>
  Claim C5. For a scan run whose report file exists and holds a list of findings, each a
  dict, and whose subdirectory resolves to \<open>base\<close>, \<open>results\<close> returns the report with
  every finding relocated: a location that is a non-empty string and resolves into
  \<open>base\<close> is replaced by its path relative to \<open>base\<close>, and a finding whose location is
  absent, empty, not a string, not resolvable or outside \<open>base\<close> is returned as it is.
  The read does not fail.
\<close>

theorem results_relocates_findings:
  assumes "runs E fs = Inr lst" and "lookup_run rid lst = Some run" and "rtype run = scan"
    and "fs (report_path E rid scan) = Some (JObj kvs)"
    and "map_of kvs ''findings'' = Some (JArr fl)"
    and "list_all is_dict fl"
    and "resolve E (joinpath (DATA_DIR E) (Path_of rid)) = Inr base"
  shows "results E rid fs =
           Inr (JObj (AList.update ''findings'' (JArr (map (relocated E base) fl)) kvs))"
proof -
  have "traverse (relocate E base) fl = Inr (map (relocated E base) fl)"
    using assms(6) by (intro traverse_pure) (simp add: relocate_dict list_all_iff)
  then show ?thesis
    using assms(1-5,7) by (simp add: results_def)
qed

lemma relocated_examples:
  "relocated env0 (PosixPath True [''tmp'', ''lintai-ui'', ''r1'']) finding_high = finding_high_rel"
  "relocated env0 (PosixPath True [''tmp'', ''lintai-ui'', ''r1'']) finding_low = finding_low"
  "relocated env0 (PosixPath True [''tmp'', ''lintai-ui'', ''r1'']) finding_number = finding_number"
  "relocated env0 (PosixPath True [''tmp'', ''lintai-ui'', ''r1'']) finding_nul = finding_nul"
  "relocated env0 (PosixPath True [''tmp'', ''lintai-ui'', ''r1'']) finding_nowhere = finding_nowhere"
  by (simp_all add: relocated_def location_inside_def field_def set_field_def
      finding_high_def finding_high_rel_def finding_low_def finding_number_def finding_nul_def
      finding_nowhere_def resolve_def plain_realpath_def env0_def Path_of_def name_ok_def
      relative_to_def is_relative_to_def path_str_def)

theorem results_relocates_findings_witness:
  "results env0 ''r1'' files_scan_mixed =
     Inr (JObj [(''findings'',
                 JArr [finding_high_rel, finding_low, finding_number, finding_nul,
                       finding_nowhere])])"
proof -
  have r: "runs env0 files_scan_mixed = Inr [run0 Done]"
    by (simp add: files_scan_mixed_def runs_tool_writes report_path_env0
        runs_save_runs [OF codec_ok_env0])
  have l: "lookup_run ''r1'' [run0 Done] = Some (run0 Done)" "rtype (run0 Done) = scan"
    by (simp_all add: lookup_run_def run0_def)
  have rep: "files_scan_mixed (report_path env0 ''r1'' scan) =
      Some (JObj [(''findings'',
                   JArr [finding_high, finding_low, finding_number, finding_nul,
                         finding_nowhere])])"
    by (simp add: files_scan_mixed_def tool_writes_def json_dump_def)
  have d: "list_all is_dict [finding_high, finding_low, finding_number, finding_nul,
      finding_nowhere]"
    by (simp add: is_dict_def finding_high_def finding_low_def finding_number_def
        finding_nul_def finding_nowhere_def)
  from results_relocates_findings [OF r l rep _ d run_dir_env0]
  show ?thesis by (simp add: relocated_examples)
qed

end
